theory Spec2Isabelle
  imports Main "HOL-Library.AList" "HOL-Library.Sublist" "HOL-Library.Multiset"
begin

section \<open>TaskMasterTS: the task reducer and the view projection\<close>

text \<open>
  The development embeds \<^verbatim>\<open>src/components/TodoApp.tsx\<close>: the \<^verbatim>\<open>Task\<close> and
  \<^verbatim>\<open>TaskState\<close> interfaces, the \<^verbatim>\<open>TaskAction\<close> union, the \<^verbatim>\<open>TaskManager\<close> class with
  its private \<^verbatim>\<open>taskMap\<close>, the function \<^verbatim>\<open>taskReducer\<close>, \<^verbatim>\<open>TaskFactory.createTask\<close> and
  the two form handlers that issue add and update actions.

  Conventions of the embedding.
  \<^item> A JavaScript string is the list of its UTF-16 code units, each a natural number
    (below 65536 in the source; the functions here are defined on every list).
  \<^item> A \<^verbatim>\<open>Date\<close> is its time value: an integer of milliseconds, or \<^verbatim>\<open>NaN\<close> for an invalid
    date. A JavaScript number that may be \<^verbatim>\<open>NaN\<close> is an \<^typ>\<open>int option\<close>.
  \<^item> JavaScript objects held in the state are never assigned to in the source (the
    reducer builds new objects with spread syntax and new arrays with \<^verbatim>\<open>map\<close>,
    \<^verbatim>\<open>filter\<close> and array spread), so they are HOL values.
  \<^item> The one object the source does mutate is the module-level singleton
    \<^verbatim>\<open>taskManager\<close>: its \<^verbatim>\<open>taskMap\<close> is threaded through the model explicitly.
  \<^item> \<^verbatim>\<open>crypto.randomUUID()\<close> and \<^verbatim>\<open>new Date()\<close> read the environment: the values they
    return are an explicit argument of the reducer.
  \<^item> \<^verbatim>\<open>String.prototype.toLowerCase\<close> reads the Unicode Character Database: the
    properties it reads are an explicit argument of the view projection.
\<close>

subsection \<open>Types and interfaces\<close>

type_synonym js_string = "nat list"

text \<open>The code units of a string of ASCII characters.\<close>

abbreviation units :: "string \<Rightarrow> js_string" where
  "units s \<equiv> map of_char s"

text \<open>A \<^verbatim>\<open>Date\<close> object: \<^verbatim>\<open>new Date(NaN)\<close> is a \<^verbatim>\<open>Date\<close> as well.\<close>

datatype Date = TimeValue int | InvalidDate

text \<open>\<^verbatim>\<open>Date.prototype.getTime\<close>: the time value, \<^verbatim>\<open>NaN\<close> for an invalid date.\<close>

fun getTime :: "Date \<Rightarrow> int option" where
  "getTime (TimeValue t) = Some t"
| "getTime InvalidDate = None"

text \<open>\<^verbatim>\<open>priority: 'low' | 'medium' | 'high'\<close>\<close>

datatype priority = Low | Medium | High

text \<open>\<^verbatim>\<open>filter: 'all' | 'active' | 'completed'\<close>\<close>

datatype status_filter = All | Active | Completed

text \<open>\<^verbatim>\<open>selectedPriority: 'all' | 'low' | 'medium' | 'high'\<close>\<close>

datatype selected_priority = AllPriorities | OnlyLow | OnlyMedium | OnlyHigh

text \<open>
  The literal a task's priority is compared with in \<^verbatim>\<open>task.priority !== priorityFilter\<close>:
  the two union types share the literals \<^verbatim>\<open>'low'\<close>, \<^verbatim>\<open>'medium'\<close> and \<^verbatim>\<open>'high'\<close>.
\<close>

fun as_selected :: "priority \<Rightarrow> selected_priority" where
  "as_selected Low = OnlyLow"
| "as_selected Medium = OnlyMedium"
| "as_selected High = OnlyHigh"

text \<open>\<^verbatim>\<open>interface Task\<close>; the field \<^verbatim>\<open>id\<close> is \<open>id_task\<close> here.\<close>

record Task =
  id_task :: js_string
  title :: js_string
  description :: js_string
  completed :: bool
  priority :: priority
  createdAt :: Date
  dueDate :: "Date option"
  tags :: "js_string list"

text \<open>\<^verbatim>\<open>Omit<Task, 'id' | 'createdAt'>\<close>, the payload of an add action.\<close>

record TaskPayload =
  p_title :: js_string
  p_description :: js_string
  p_completed :: bool
  p_priority :: priority
  p_dueDate :: "Date option"
  p_tags :: "js_string list"

text \<open>
  \<^verbatim>\<open>Partial<Task>\<close>: each field is present (\<open>Some\<close>) or absent (\<open>None\<close>). A present
  \<^verbatim>\<open>dueDate\<close> may itself be \<^verbatim>\<open>undefined\<close>.
\<close>

record TaskUpdates =
  upd_id :: "js_string option"
  upd_title :: "js_string option"
  upd_description :: "js_string option"
  upd_completed :: "bool option"
  upd_priority :: "priority option"
  upd_createdAt :: "Date option"
  upd_dueDate :: "Date option option"
  upd_tags :: "js_string list option"

text \<open>The object literal \<^verbatim>\<open>{}\<close> at type \<^verbatim>\<open>Partial<Task>\<close>.\<close>

definition no_updates :: TaskUpdates where
  "no_updates = \<lparr>upd_id = None, upd_title = None, upd_description = None,
     upd_completed = None, upd_priority = None, upd_createdAt = None,
     upd_dueDate = None, upd_tags = None\<rparr>"

text \<open>\<^verbatim>\<open>interface TaskState\<close>; the field \<^verbatim>\<open>filter\<close> is \<open>filter_state\<close> here.\<close>

record TaskState =
  tasks :: "Task list"
  filter_state :: status_filter
  searchQuery :: js_string
  selectedPriority :: selected_priority

text \<open>\<^verbatim>\<open>type TaskAction\<close>\<close>

datatype TaskAction =
    ADD_TASK TaskPayload
  | UPDATE_TASK js_string TaskUpdates
  | DELETE_TASK js_string
  | TOGGLE_TASK js_string
  | SET_FILTER status_filter
  | SET_SEARCH js_string
  | SET_PRIORITY_FILTER selected_priority
  | CLEAR_COMPLETED

text \<open>
  What one call of the reducer reads from the environment: the result of
  \<^verbatim>\<open>crypto.randomUUID()\<close> and the time value of \<^verbatim>\<open>new Date()\<close>, which is never \<^verbatim>\<open>NaN\<close>.
\<close>

record Env =
  randomUUID :: js_string
  now :: int

subsection \<open>TaskManager\<close>

text \<open>
  \<^verbatim>\<open>private taskMap: Map<string, Task>\<close>. A JavaScript \<^verbatim>\<open>Map\<close> keeps its entries in
  insertion order; \<^verbatim>\<open>set\<close> on a present key overwrites the value in place and on an
  absent key appends, which is \<^const>\<open>AList.update\<close>; \<^verbatim>\<open>delete\<close> is \<^const>\<open>AList.delete\<close>
  and \<^verbatim>\<open>get\<close> is \<^const>\<open>map_of\<close>.
\<close>

type_synonym TaskMap = "(js_string \<times> Task) list"

definition addTask :: "TaskMap \<Rightarrow> Task \<Rightarrow> TaskMap" where
  "addTask m task = AList.update (id_task task) task m"

text \<open>The object spread \<^verbatim>\<open>{ ...task, ...updates }\<close>.\<close>

definition spread_updates :: "Task \<Rightarrow> TaskUpdates \<Rightarrow> Task" where
  "spread_updates task updates =
     \<lparr>id_task = (case upd_id updates of None \<Rightarrow> id_task task | Some v \<Rightarrow> v),
      title = (case upd_title updates of None \<Rightarrow> title task | Some v \<Rightarrow> v),
      description = (case upd_description updates of None \<Rightarrow> description task | Some v \<Rightarrow> v),
      completed = (case upd_completed updates of None \<Rightarrow> completed task | Some v \<Rightarrow> v),
      priority = (case upd_priority updates of None \<Rightarrow> priority task | Some v \<Rightarrow> v),
      createdAt = (case upd_createdAt updates of None \<Rightarrow> createdAt task | Some v \<Rightarrow> v),
      dueDate = (case upd_dueDate updates of None \<Rightarrow> dueDate task | Some v \<Rightarrow> v),
      tags = (case upd_tags updates of None \<Rightarrow> tags task | Some v \<Rightarrow> v)\<rparr>"

text \<open>\<^verbatim>\<open>updateTask\<close> returns the map as it leaves it and the updated task, or \<^verbatim>\<open>null\<close>.\<close>

definition updateTask :: "TaskMap \<Rightarrow> js_string \<Rightarrow> TaskUpdates \<Rightarrow> TaskMap \<times> Task option" where
  "updateTask m i updates =
     (case map_of m i of
        None \<Rightarrow> (m, None)
      | Some task \<Rightarrow>
          (let updatedTask = spread_updates task updates
           in (AList.update i updatedTask m, Some updatedTask)))"

definition deleteTask :: "TaskMap \<Rightarrow> js_string \<Rightarrow> TaskMap \<times> bool" where
  "deleteTask m i = (AList.delete i m, i \<in> fst ` set m)"

definition getAllTasks :: "TaskMap \<Rightarrow> Task list" where
  "getAllTasks m = map snd m"

subsection \<open>The reducer\<close>

text \<open>
  \<^verbatim>\<open>taskReducer(state, action)\<close>, with the map of the singleton \<^verbatim>\<open>taskManager\<close> as it
  is before the call and as the call leaves it. In the toggle case
  \<^verbatim>\<open>!state.tasks.find(...)?.completed\<close> is \<^verbatim>\<open>true\<close> when no task is found.
\<close>

fun taskReducer :: "Env \<Rightarrow> TaskMap \<Rightarrow> TaskState \<Rightarrow> TaskAction \<Rightarrow> TaskMap \<times> TaskState" where
  "taskReducer env m state (ADD_TASK payload) =
     (let newTask = \<lparr>id_task = randomUUID env, title = p_title payload,
            description = p_description payload, completed = p_completed payload,
            priority = p_priority payload, createdAt = TimeValue (now env),
            dueDate = p_dueDate payload, tags = p_tags payload\<rparr>
      in (addTask m newTask, state\<lparr>tasks := tasks state @ [newTask]\<rparr>))"
| "taskReducer env m state (UPDATE_TASK i updates) =
     (case updateTask m i updates of
        (m', None) \<Rightarrow> (m', state)
      | (m', Some updatedTask) \<Rightarrow>
          (m', state\<lparr>tasks := map (\<lambda>task. if id_task task = i then updatedTask else task)
                                  (tasks state)\<rparr>))"
| "taskReducer env m state (DELETE_TASK i) =
     (fst (deleteTask m i),
      state\<lparr>tasks := filter (\<lambda>task. id_task task \<noteq> i) (tasks state)\<rparr>)"
| "taskReducer env m state (TOGGLE_TASK i) =
     (case updateTask m i
             (no_updates\<lparr>upd_completed :=
                Some (case find (\<lambda>t. id_task t = i) (tasks state) of
                        None \<Rightarrow> True
                      | Some t \<Rightarrow> \<not> completed t)\<rparr>) of
        (m', None) \<Rightarrow> (m', state)
      | (m', Some updatedTask) \<Rightarrow>
          (m', state\<lparr>tasks := map (\<lambda>task. if id_task task = i then updatedTask else task)
                                  (tasks state)\<rparr>))"
| "taskReducer env m state (SET_FILTER f) = (m, state\<lparr>filter_state := f\<rparr>)"
| "taskReducer env m state (SET_SEARCH q) = (m, state\<lparr>searchQuery := q\<rparr>)"
| "taskReducer env m state (SET_PRIORITY_FILTER p) = (m, state\<lparr>selectedPriority := p\<rparr>)"
| "taskReducer env m state CLEAR_COMPLETED =
     (let activeTasks = filter (\<lambda>task. \<not> completed task) (tasks state)
      in (m, state\<lparr>tasks := activeTasks\<rparr>))"

text \<open>The initial state of \<^verbatim>\<open>useReducer\<close> in \<^verbatim>\<open>useTasks\<close>, with the empty map of a new \<^verbatim>\<open>TaskManager\<close>.\<close>

definition initialState :: TaskState where
  "initialState = \<lparr>tasks = [], filter_state = All, searchQuery = [], selectedPriority = AllPriorities\<rparr>"

definition initialConfig :: "TaskMap \<times> TaskState" where
  "initialConfig = ([], initialState)"

text \<open>A sequence of dispatches, each with what it reads from the environment.\<close>

fun dispatchAll :: "TaskMap \<times> TaskState \<Rightarrow> (Env \<times> TaskAction) list \<Rightarrow> TaskMap \<times> TaskState" where
  "dispatchAll c [] = c"
| "dispatchAll (m, state) ((env, action) # rest) = dispatchAll (taskReducer env m state action) rest"

subsection \<open>Strings\<close>

text \<open>
  \<^verbatim>\<open>String.prototype.trim\<close> strips the code units of ECMAScript's WhiteSpace and
  LineTerminator productions from both ends: TAB, LF, VT, FF, CR, SPACE, NO-BREAK SPACE,
  the other space separators of Unicode (U+1680, U+2000 to U+200A, U+202F, U+205F,
  U+3000), LINE and PARAGRAPH SEPARATOR (U+2028, U+2029) and U+FEFF.
\<close>

definition isWhiteSpace :: "nat \<Rightarrow> bool" where
  "isWhiteSpace c =
     (c \<in> {9, 10, 11, 12, 13, 32, 160, 0x1680, 0x2028, 0x2029, 0x202F, 0x205F, 0x3000, 0xFEFF}
      \<or> (0x2000 \<le> c \<and> c \<le> 0x200A))"

definition trim :: "js_string \<Rightarrow> js_string" where
  "trim s = rev (dropWhile isWhiteSpace (rev (dropWhile isWhiteSpace s)))"

text \<open>
  The properties of the Unicode Character Database that \<^verbatim>\<open>toLowerCase\<close> reads, per code
  point: the lower-case mapping that applies without condition (Simple_Lowercase_Mapping
  of \<^verbatim>\<open>UnicodeData.txt\<close>, overridden by the unconditional entries of
  \<^verbatim>\<open>SpecialCasing.txt\<close>), Cased and Case_Ignorable.
\<close>

record UnicodeData =
  lowercaseMapping :: "nat \<Rightarrow> nat list"
  isCased :: "nat \<Rightarrow> bool"
  isCaseIgnorable :: "nat \<Rightarrow> bool"

text \<open>
  \<^verbatim>\<open>StringToCodePoints\<close>: a leading surrogate followed by a trailing one is one code
  point, every other code unit is a code point of its own.
\<close>

fun stringToCodePoints :: "js_string \<Rightarrow> nat list" where
  "stringToCodePoints (u # v # rest) =
     (if 0xD800 \<le> u \<and> u \<le> 0xDBFF \<and> 0xDC00 \<le> v \<and> v \<le> 0xDFFF
      then (0x10000 + (u - 0xD800) * 0x400 + (v - 0xDC00)) # stringToCodePoints rest
      else u # stringToCodePoints (v # rest))"
| "stringToCodePoints us = us"

text \<open>\<^verbatim>\<open>CodePointsToString\<close>, with \<^verbatim>\<open>UTF16EncodeCodePoint\<close>.\<close>

definition utf16EncodeCodePoint :: "nat \<Rightarrow> nat list" where
  "utf16EncodeCodePoint cp =
     (if cp \<le> 0xFFFF then [cp]
      else [0xD800 + (cp - 0x10000) div 0x400, 0xDC00 + (cp - 0x10000) mod 0x400])"

definition codePointsToString :: "nat list \<Rightarrow> js_string" where
  "codePointsToString cps = concat (map utf16EncodeCodePoint cps)"

text \<open>
  The context of the condition Final_Sigma of \<^verbatim>\<open>SpecialCasing.txt\<close>: going away from a
  code point, a cased letter is met after case-ignorable code points only.
\<close>

fun reachesCased :: "UnicodeData \<Rightarrow> nat list \<Rightarrow> bool" where
  "reachesCased U [] = False"
| "reachesCased U (c # cs) = (isCased U c \<or> (isCaseIgnorable U c \<and> reachesCased U cs))"

text \<open>
  The Unicode Default Case Conversion \<open>toLowercase\<close> that ECMAScript prescribes, over the
  code points of the string: each code point is replaced by its lower-case mapping,
  except that GREEK CAPITAL LETTER SIGMA (U+03A3) becomes the final small sigma (U+03C2)
  where it is preceded by a cased letter and not followed by one. The second argument
  holds the code points already passed, nearest first.
\<close>

fun lowercaseCodePoints :: "UnicodeData \<Rightarrow> nat list \<Rightarrow> nat list \<Rightarrow> nat list" where
  "lowercaseCodePoints U before [] = []"
| "lowercaseCodePoints U before (c # after) =
     (if c = 0x3A3 \<and> reachesCased U before \<and> \<not> reachesCased U after then [0x3C2]
      else lowercaseMapping U c)
     @ lowercaseCodePoints U (c # before) after"

text \<open>\<^verbatim>\<open>String.prototype.toLowerCase\<close>\<close>

definition toLowerCase :: "UnicodeData \<Rightarrow> js_string \<Rightarrow> js_string" where
  "toLowerCase U s = codePointsToString (lowercaseCodePoints U [] (stringToCodePoints s))"

text \<open>\<^verbatim>\<open>s.includes(q)\<close>: \<open>q\<close> occurs in \<open>s\<close> at some position.\<close>

fun includes_str :: "js_string \<Rightarrow> js_string \<Rightarrow> bool" where
  "includes_str [] q = (q = [])"
| "includes_str (c # cs) q = (prefix q (c # cs) \<or> includes_str cs q)"

subsection \<open>TaskManager.filterTasks\<close>

text \<open>\<^verbatim>\<open>private priorityOrder = { high: 3, medium: 2, low: 1 }\<close>\<close>

fun priorityOrder :: "priority \<Rightarrow> int" where
  "priorityOrder High = 3"
| "priorityOrder Medium = 2"
| "priorityOrder Low = 1"

text \<open>
  The callback of \<^verbatim>\<open>tasks.filter\<close>, with its early returns in the order of the source.
  A string is truthy when it is not empty.
\<close>

definition keepTask ::
  "UnicodeData \<Rightarrow> status_filter \<Rightarrow> js_string \<Rightarrow> selected_priority \<Rightarrow> Task \<Rightarrow> bool" where
  "keepTask U f q priorityFilter task =
     (if f = Active \<and> completed task then False
      else if f = Completed \<and> \<not> completed task then False
      else if q \<noteq> [] \<and> \<not> includes_str (toLowerCase U (title task)) (toLowerCase U q)
                       \<and> \<not> includes_str (toLowerCase U (description task)) (toLowerCase U q)
           then False
      else if priorityFilter \<noteq> AllPriorities \<and> as_selected (priority task) \<noteq> priorityFilter
           then False
      else True)"

text \<open>
  The comparator passed to \<^verbatim>\<open>sort\<close>. \<^verbatim>\<open>new Date(d).getTime()\<close> is the time value of \<^verbatim>\<open>d\<close>,
  and a difference with \<^verbatim>\<open>NaN\<close> is \<^verbatim>\<open>NaN\<close>. The difference of two time values is exact
  here; the source rounds it to the nearest double, which keeps its sign, and the sort
  reads nothing but the sign.
\<close>

definition compareTasks :: "Task \<Rightarrow> Task \<Rightarrow> int option" where
  "compareTasks a b =
     (let priorityDiff = priorityOrder (priority b) - priorityOrder (priority a)
      in if priorityDiff \<noteq> 0 then Some priorityDiff
         else (case (getTime (createdAt b), getTime (createdAt a)) of
                 (Some tb, Some ta) \<Rightarrow> Some (tb - ta)
               | _ \<Rightarrow> None))"

text \<open>\<^verbatim>\<open>SortCompare\<close> of ECMAScript: a comparator result of \<^verbatim>\<open>NaN\<close> counts as \<open>+0\<close>.\<close>

definition sortCompare :: "('a \<Rightarrow> 'a \<Rightarrow> int option) \<Rightarrow> 'a \<Rightarrow> 'a \<Rightarrow> int" where
  "sortCompare cmp x y = (case cmp x y of None \<Rightarrow> 0 | Some v \<Rightarrow> v)"

text \<open>
  \<^verbatim>\<open>Array.prototype.sort(comparefn)\<close>. Since ECMAScript 2019 the sort is stable, and for
  a comparator that is a consistent ordering the result is the one stable sorted
  permutation, whatever algorithm the engine runs; the model computes it by insertion:
  an element goes in front of the first element it does not compare greater than. For
  a comparator that is no consistent ordering ECMAScript leaves the order to the engine;
  the model then gives what insertion gives.
\<close>

fun sort_insert :: "('a \<Rightarrow> 'a \<Rightarrow> int option) \<Rightarrow> 'a \<Rightarrow> 'a list \<Rightarrow> 'a list" where
  "sort_insert cmp x [] = [x]"
| "sort_insert cmp x (y # ys) =
     (if sortCompare cmp x y \<le> 0 then x # y # ys else y # sort_insert cmp x ys)"

fun array_sort :: "('a \<Rightarrow> 'a \<Rightarrow> int option) \<Rightarrow> 'a list \<Rightarrow> 'a list" where
  "array_sort cmp [] = []"
| "array_sort cmp (x # xs) = sort_insert cmp x (array_sort cmp xs)"

definition filterTasks ::
  "UnicodeData \<Rightarrow> Task list \<Rightarrow> status_filter \<Rightarrow> js_string \<Rightarrow> selected_priority \<Rightarrow> Task list" where
  "filterTasks U ts f q priorityFilter =
     array_sort compareTasks (filter (keepTask U f q priorityFilter) ts)"

subsection \<open>TaskFactory and the form handlers\<close>

text \<open>
  \<^verbatim>\<open>TaskFactory.createTask\<close>; the callers pass the defaults of the optional parameters
  explicitly.
\<close>

definition createTask ::
  "js_string \<Rightarrow> js_string \<Rightarrow> priority \<Rightarrow> Date option \<Rightarrow> js_string list \<Rightarrow> TaskPayload" where
  "createTask ttl descr prio due tgs =
     \<lparr>p_title = trim ttl, p_description = trim descr, p_completed = False,
      p_priority = prio, p_dueDate = due, p_tags = tgs\<rparr>"

text \<open>
  \<^verbatim>\<open>TaskForm.handleSubmit\<close> with \<^verbatim>\<open>handleAddTask\<close>: the action dispatched for the form's
  title, description and priority, or none when the title trims to the empty string.
\<close>

definition handleSubmit :: "js_string \<Rightarrow> js_string \<Rightarrow> priority \<Rightarrow> TaskAction option" where
  "handleSubmit ttl descr prio =
     (if trim ttl \<noteq> [] then Some (ADD_TASK (createTask ttl descr prio None [])) else None)"

text \<open>\<^verbatim>\<open>TaskItem.handleSave\<close> with \<^verbatim>\<open>handleEditTask\<close>.\<close>

definition handleSave :: "Task \<Rightarrow> js_string \<Rightarrow> js_string \<Rightarrow> TaskAction option" where
  "handleSave task editTitle editDescription =
     (if trim editTitle \<noteq> []
      then Some (UPDATE_TASK (id_task task)
                  (no_updates\<lparr>upd_title := Some (trim editTitle),
                              upd_description := Some (trim editDescription)\<rparr>))
      else None)"

subsection \<open>The filtering criteria and the sort order, as the specification words them\<close>

text \<open>
  The status criterion: \<open>active\<close> excludes completed tasks, \<open>completed\<close> excludes
  incomplete tasks, \<open>all\<close> excludes nothing.
\<close>

definition excluded_by_status :: "status_filter \<Rightarrow> Task \<Rightarrow> bool" where
  "excluded_by_status f t =
     (case f of Active \<Rightarrow> completed t | Completed \<Rightarrow> \<not> completed t | All \<Rightarrow> False)"

text \<open>
  Two code units are the same letter up to case: they are equal, or (the letters below
  256) one is a capital (\<^verbatim>\<open>A\<close> to \<^verbatim>\<open>Z\<close>, or U+00C0 to U+00DE other than the
  multiplication sign U+00D7) and the other is the small letter 32 above it.
\<close>

definition isCapital :: "nat \<Rightarrow> bool" where
  "isCapital c = ((65 \<le> c \<and> c \<le> 90) \<or> (192 \<le> c \<and> c \<le> 222 \<and> c \<noteq> 215))"

definition same_letter :: "nat \<Rightarrow> nat \<Rightarrow> bool" where
  "same_letter a b = (a = b \<or> (isCapital a \<and> b = a + 32) \<or> (isCapital b \<and> a = b + 32))"

text \<open>
  A text contains the search text as a case-insensitive substring when some stretch of
  it equals the search text, letter for letter, up to case.
\<close>

definition contains_ignoring_case :: "js_string \<Rightarrow> js_string \<Rightarrow> bool" where
  "contains_ignoring_case txt q =
     (\<exists>before mid after. txt = before @ mid @ after \<and> list_all2 same_letter mid q)"

text \<open>
  The search criterion: with a non-empty search text, a task is excluded unless its
  title or its description contains it.
\<close>

definition excluded_by_search :: "js_string \<Rightarrow> Task \<Rightarrow> bool" where
  "excluded_by_search q t =
     (q \<noteq> [] \<and> \<not> (contains_ignoring_case (title t) q \<or> contains_ignoring_case (description t) q))"

text \<open>
  The priority criterion: with a filter other than \<open>all\<close>, a task is excluded unless its
  priority equals the filter.
\<close>

definition excluded_by_priority :: "selected_priority \<Rightarrow> Task \<Rightarrow> bool" where
  "excluded_by_priority pf t =
     (case pf of
        AllPriorities \<Rightarrow> False
      | OnlyLow \<Rightarrow> priority t \<noteq> Low
      | OnlyMedium \<Rightarrow> priority t \<noteq> Medium
      | OnlyHigh \<Rightarrow> priority t \<noteq> High)"

text \<open>
  What the Unicode Character Database says of the code points below 256: the capitals
  map to the small letter 32 above, every other code point to itself.
\<close>

definition latin1_tables :: "UnicodeData \<Rightarrow> bool" where
  "latin1_tables U =
     (\<forall>c < 256. lowercaseMapping U c = [if isCapital c then c + 32 else c])"





subsection \<open>Configurations and admissible actions\<close>

text \<open>
  The lookup map agrees with the task list when every listed task is stored, as it is,
  under its identifier. (The map may hold further entries.)
\<close>

definition agrees :: "TaskMap \<Rightarrow> TaskState \<Rightarrow> bool" where
  "agrees m s = (\<forall>t \<in> set (tasks s). map_of m (id_task t) = Some t)"

text \<open>
  The actions the application issues: an add action carries a title that trims to
  non-empty (\<^verbatim>\<open>handleSubmit\<close> checks it) and meets an identifier no listed task has; an
  update action names neither \<^verbatim>\<open>id\<close> nor \<^verbatim>\<open>createdAt\<close>, and a title it names trims to
  non-empty (\<^verbatim>\<open>handleSave\<close> sends a trimmed title and description only). The type
  \<^verbatim>\<open>TaskAction\<close> admits more; the reducer checks none of this.
\<close>

fun admissible :: "Env \<Rightarrow> TaskState \<Rightarrow> TaskAction \<Rightarrow> bool" where
  "admissible env s (ADD_TASK payload) =
     (trim (p_title payload) \<noteq> [] \<and> randomUUID env \<notin> id_task ` set (tasks s))"
| "admissible env s (UPDATE_TASK i updates) =
     (upd_id updates = None \<and> upd_createdAt updates = None \<and>
      (case upd_title updates of None \<Rightarrow> True | Some v \<Rightarrow> trim v \<noteq> []))"
| "admissible env s (DELETE_TASK i) = True"
| "admissible env s (TOGGLE_TASK i) = True"
| "admissible env s (SET_FILTER f) = True"
| "admissible env s (SET_SEARCH q) = True"
| "admissible env s (SET_PRIORITY_FILTER p) = True"
| "admissible env s CLEAR_COMPLETED = True"

fun admissible_run :: "TaskMap \<times> TaskState \<Rightarrow> (Env \<times> TaskAction) list \<Rightarrow> bool" where
  "admissible_run c [] = True"
| "admissible_run (m, state) ((env, action) # rest) =
     (admissible env state action \<and> admissible_run (taskReducer env m state action) rest)"

text \<open>What identifies a task and dates it.\<close>

definition stamp :: "Task \<Rightarrow> js_string \<times> Date" where
  "stamp t = (id_task t, createdAt t)"

definition task_inv :: "TaskMap \<times> TaskState \<Rightarrow> bool" where
  "task_inv c =
     (agrees (fst c) (snd c) \<and> distinct (map id_task (tasks (snd c))) \<and>
      (\<forall>t \<in> set (tasks (snd c)). trim (title t) \<noteq> []))"

text \<open>An action that leaves the identifier and the creation date of every task alone.\<close>

fun keeps_identity :: "TaskAction \<Rightarrow> bool" where
  "keeps_identity (UPDATE_TASK i updates) = (upd_id updates = None \<and> upd_createdAt updates = None)"
| "keeps_identity (ADD_TASK payload) = True"
| "keeps_identity (DELETE_TASK i) = True"
| "keeps_identity (TOGGLE_TASK i) = True"
| "keeps_identity (SET_FILTER f) = True"
| "keeps_identity (SET_SEARCH q) = True"
| "keeps_identity (SET_PRIORITY_FILTER p) = True"
| "keeps_identity CLEAR_COMPLETED = True"

text \<open>What the add actions of a run have read from the environment, in order.\<close>

fun added :: "(Env \<times> TaskAction) list \<Rightarrow> Env list" where
  "added [] = []"
| "added ((env, ADD_TASK payload) # rest) = env # added rest"
| "added ((env, UPDATE_TASK i updates) # rest) = added rest"
| "added ((env, DELETE_TASK i) # rest) = added rest"
| "added ((env, TOGGLE_TASK i) # rest) = added rest"
| "added ((env, SET_FILTER f) # rest) = added rest"
| "added ((env, SET_SEARCH q) # rest) = added rest"
| "added ((env, SET_PRIORITY_FILTER p) # rest) = added rest"
| "added ((env, CLEAR_COMPLETED) # rest) = added rest"

text \<open>
  The identifier and creation date of every listed and every stored task are among the
  given pairs.
\<close>

definition stamped_from :: "(js_string \<times> Date) set \<Rightarrow> TaskMap \<times> TaskState \<Rightarrow> bool" where
  "stamped_from G c =
     ((\<forall>t \<in> set (tasks (snd c)). stamp t \<in> G) \<and> (\<forall>t \<in> snd ` set (fst c). stamp t \<in> G))"

text \<open>The pairs of identifier and date that the add actions of a run give their tasks.\<close>

definition stamps_read :: "(Env \<times> TaskAction) list \<Rightarrow> (js_string \<times> Date) set" where
  "stamps_read steps = (\<lambda>e. (randomUUID e, TimeValue (now e))) ` set (added steps)"

subsection \<open>Example data\<close>

text \<open>
  A fragment of the Unicode Character Database: Basic Latin, Latin-1 and the Greek
  letters U+0391 to U+03CE, with LATIN CAPITAL LETTER I WITH DOT ABOVE (U+0130), whose
  lower-case mapping has two code points. Code points outside the fragment map to
  themselves and are neither cased nor case-ignorable here.
\<close>

definition ucd_fragment :: UnicodeData where
  "ucd_fragment =
     \<lparr>lowercaseMapping =
        (\<lambda>c. if (65 \<le> c \<and> c \<le> 90) \<or> (192 \<le> c \<and> c \<le> 222 \<and> c \<noteq> 215)
                   \<or> (0x391 \<le> c \<and> c \<le> 0x3AB \<and> c \<noteq> 0x3A2)
              then [c + 32]
              else if c = 0x130 then [0x69, 0x307]
              else [c]),
      isCased =
        (\<lambda>c. (65 \<le> c \<and> c \<le> 90) \<or> (97 \<le> c \<and> c \<le> 122) \<or> c \<in> {170, 181, 186}
              \<or> (192 \<le> c \<and> c \<le> 255 \<and> c \<noteq> 215 \<and> c \<noteq> 247) \<or> c = 0x130
              \<or> (0x391 \<le> c \<and> c \<le> 0x3CE \<and> c \<noteq> 0x3A2)),
      isCaseIgnorable =
        (\<lambda>c. c \<in> {39, 46, 58, 94, 96, 168, 173, 175, 180, 183, 184}
              \<or> (0x300 \<le> c \<and> c \<le> 0x36F))\<rparr>"

abbreviation env_at :: "js_string \<Rightarrow> int \<Rightarrow> Env" where
  "env_at i t \<equiv> \<lparr>randomUUID = i, now = t\<rparr>"

abbreviation task_of :: "js_string \<Rightarrow> js_string \<Rightarrow> bool \<Rightarrow> priority \<Rightarrow> int \<Rightarrow> Task" where
  "task_of i ttl done prio t \<equiv>
     \<lparr>id_task = i, title = ttl, description = [], completed = done, priority = prio,
      createdAt = TimeValue t, dueDate = None, tags = []\<rparr>"

abbreviation state_of :: "Task list \<Rightarrow> TaskState" where
  "state_of ts \<equiv>
     \<lparr>tasks = ts, filter_state = All, searchQuery = [], selectedPriority = AllPriorities\<rparr>"

abbreviation payload_of :: "js_string \<Rightarrow> bool \<Rightarrow> TaskPayload" where
  "payload_of ttl done \<equiv>
     \<lparr>p_title = ttl, p_description = [], p_completed = done, p_priority = Low,
      p_dueDate = None, p_tags = []\<rparr>"

text \<open>Two tasks are added, then an update action renames the first to the identifier of the second.\<close>

abbreviation two_adds :: "(Env \<times> TaskAction) list" where
  "two_adds \<equiv>
     [(env_at (units ''1'') 10, ADD_TASK (createTask (units ''a'') [] Medium None [])),
      (env_at (units ''2'') 20, ADD_TASK (createTask (units ''b'') [] Medium None []))]"

abbreviation renaming_run :: "(Env \<times> TaskAction) list" where
  "renaming_run \<equiv>
     two_adds @ [(env_at [] 30, UPDATE_TASK (units ''1'') (no_updates\<lparr>upd_id := Some (units ''2'')\<rparr>))]"

text \<open>What the form handlers issue: a task is added, edited, completed; a second is added; the completed one is cleared.\<close>

abbreviation session_run :: "(Env \<times> TaskAction) list" where
  "session_run \<equiv>
     [(env_at (units ''1'') 10, ADD_TASK (createTask (units '' Write report '') [] High None [])),
      (env_at [] 20, UPDATE_TASK (units ''1'')
         (no_updates\<lparr>upd_title := Some (units ''Write the report''),
                     upd_description := Some (units ''today'')\<rparr>)),
      (env_at [] 30, TOGGLE_TASK (units ''1'')),
      (env_at (units ''2'') 40,
         ADD_TASK (createTask (units ''Meeting'') (units ''discuss budget'') Low None [])),
      (env_at [] 50, CLEAR_COMPLETED)]"

section \<open>Properties\<close>

subsection \<open>Actions on an identifier the list does not have\<close>

lemma filter_id_absent:
  "i \<notin> id_task ` set ts \<Longrightarrow> filter (\<lambda>task. id_task task \<noteq> i) ts = ts"
  by (induction ts) auto

lemma map_id_absent:
  "i \<notin> id_task ` set ts \<Longrightarrow> map (\<lambda>task. if id_task task = i then u else task) ts = ts"
  by (induction ts) auto

text \<open>
  C7. An update, delete or toggle action whose identifier does not occur in the state's
  task list returns a state equal to the input state, whatever the lookup map holds
  (where the map has an entry under the identifier all the same, the source builds a new
  state object with the same contents); the model has no failing branch, as the source
  has no \<^verbatim>\<open>throw\<close> and reads the missing task through \<^verbatim>\<open>?.\<close> only. In particular the
  delete leaves the task list as it was.
\<close>

theorem absent_id_noop:
  "i \<notin> id_task ` set (tasks s) \<Longrightarrow>
     snd (taskReducer env m s (UPDATE_TASK i updates)) = s
   \<and> snd (taskReducer env m s (DELETE_TASK i)) = s
   \<and> snd (taskReducer env m s (TOGGLE_TASK i)) = s"
  by (simp add: updateTask_def Let_def map_id_absent filter_id_absent split: option.splits)

theorem absent_id_noop_witness:
  "(units ''9'') \<notin> id_task ` set (tasks (state_of [task_of (units ''1'') (units ''a'') False Low 10]))
   \<and> snd (taskReducer (env_at [] 20) [((units ''1''), task_of (units ''1'') (units ''a'') False Low 10), ((units ''9''), task_of (units ''9'') (units ''old'') True Low 5)]
            (state_of [task_of (units ''1'') (units ''a'') False Low 10])
            (UPDATE_TASK (units ''9'') (no_updates\<lparr>upd_title := Some (units ''new'')\<rparr>)))
       = state_of [task_of (units ''1'') (units ''a'') False Low 10]
   \<and> snd (taskReducer (env_at [] 20) [((units ''1''), task_of (units ''1'') (units ''a'') False Low 10), ((units ''9''), task_of (units ''9'') (units ''old'') True Low 5)]
            (state_of [task_of (units ''1'') (units ''a'') False Low 10]) (DELETE_TASK (units ''9'')))
       = state_of [task_of (units ''1'') (units ''a'') False Low 10]
   \<and> snd (taskReducer (env_at [] 20) [((units ''1''), task_of (units ''1'') (units ''a'') False Low 10), ((units ''9''), task_of (units ''9'') (units ''old'') True Low 5)]
            (state_of [task_of (units ''1'') (units ''a'') False Low 10]) (TOGGLE_TASK (units ''9'')))
       = state_of [task_of (units ''1'') (units ''a'') False Low 10]"
proof -
  have absent: "(units ''9'') \<notin> id_task ` set (tasks (state_of [task_of (units ''1'') (units ''a'') False Low 10]))"
    by simp
  show ?thesis
    using absent
      absent_id_noop [OF absent, of "env_at [] 20"
        "[((units ''1''), task_of (units ''1'') (units ''a'') False Low 10), ((units ''9''), task_of (units ''9'') (units ''old'') True Low 5)]"
        "no_updates\<lparr>upd_title := Some (units ''new'')\<rparr>"]
    by simp
qed

subsection \<open>The filter actions and clear-completed\<close>

text \<open>
  C10. Each filter-setting action modifies only its own field: \<^verbatim>\<open>SET_FILTER\<close> replaces the
  status filter, \<^verbatim>\<open>SET_SEARCH\<close> replaces the search text with the payload exactly as given
  (no trimming), \<^verbatim>\<open>SET_PRIORITY_FILTER\<close> replaces the priority filter; the task list and
  the two other filter fields are those of the input state (and the lookup map is left
  alone).
\<close>

theorem filter_actions_frame:
  "snd (taskReducer env m s (SET_FILTER f)) =
     \<lparr>tasks = tasks s, filter_state = f, searchQuery = searchQuery s,
      selectedPriority = selectedPriority s\<rparr>
   \<and> snd (taskReducer env m s (SET_SEARCH q)) =
     \<lparr>tasks = tasks s, filter_state = filter_state s, searchQuery = q,
      selectedPriority = selectedPriority s\<rparr>
   \<and> snd (taskReducer env m s (SET_PRIORITY_FILTER p)) =
     \<lparr>tasks = tasks s, filter_state = filter_state s, searchQuery = searchQuery s,
      selectedPriority = p\<rparr>
   \<and> fst (taskReducer env m s (SET_FILTER f)) = m
   \<and> fst (taskReducer env m s (SET_SEARCH q)) = m
   \<and> fst (taskReducer env m s (SET_PRIORITY_FILTER p)) = m"
  by simp

text \<open>
  C8. \<^verbatim>\<open>CLEAR_COMPLETED\<close> removes exactly the completed tasks: a task is in the resulting
  list iff it was in the list and is not completed, the tasks that are not completed
  stay as they were (same order, same number of copies), the filter fields and the lookup
  map are untouched; and a second \<^verbatim>\<open>CLEAR_COMPLETED\<close> right after the first changes
  nothing.
\<close>

theorem clear_completed_exact_idempotent:
  "(\<forall>t. t \<in> set (tasks (snd (taskReducer env m s CLEAR_COMPLETED)))
          \<longleftrightarrow> t \<in> set (tasks s) \<and> \<not> completed t)
   \<and> filter (\<lambda>t. \<not> completed t) (tasks (snd (taskReducer env m s CLEAR_COMPLETED)))
       = filter (\<lambda>t. \<not> completed t) (tasks s)
   \<and> filter completed (tasks (snd (taskReducer env m s CLEAR_COMPLETED))) = []
   \<and> filter_state (snd (taskReducer env m s CLEAR_COMPLETED)) = filter_state s
   \<and> searchQuery (snd (taskReducer env m s CLEAR_COMPLETED)) = searchQuery s
   \<and> selectedPriority (snd (taskReducer env m s CLEAR_COMPLETED)) = selectedPriority s
   \<and> taskReducer env' (fst (taskReducer env m s CLEAR_COMPLETED))
         (snd (taskReducer env m s CLEAR_COMPLETED)) CLEAR_COMPLETED
       = taskReducer env m s CLEAR_COMPLETED"
  by (auto simp: Let_def)

subsection \<open>The view projection\<close>

lemma includes_str_sublist: "includes_str s q \<longleftrightarrow> sublist q s"
  by (induction s) (auto simp: sublist_Cons_right)

lemma mset_sort_insert: "mset (sort_insert cmp x ys) = add_mset x (mset ys)"
  by (induction ys) auto

lemma mset_array_sort: "mset (array_sort cmp xs) = mset xs"
  by (induction xs) (auto simp: mset_sort_insert)




text \<open>
  C4. The claim: the filtering predicate is the conjunction of the three criteria, and
  with a non-empty search text a task is excluded unless its title or its description
  contains the search text as a case-insensitive substring. The source, whose comment
  reads \<^verbatim>\<open>Search filter (case-insensitive)\<close>, looks for \<^verbatim>\<open>searchQuery.toLowerCase()\<close> in
  \<^verbatim>\<open>task.title.toLowerCase()\<close>, and how a letter is lower-cased depends on the letters
  around it: the title of the two Greek capitals alpha, sigma becomes alpha, final
  sigma, while the search text of the capital sigma alone becomes the other small
  sigma. The title contains the search text as it stands, and the task is excluded.
\<close>

theorem search_misses_final_sigma:
  "includes_str [0x391, 0x3A3] [0x3A3]
   \<and> contains_ignoring_case [0x391, 0x3A3] [0x3A3]
   \<and> \<not> excluded_by_search [0x3A3] (task_of (units ''1'') [0x391, 0x3A3] False Medium 10)
   \<and> toLowerCase ucd_fragment [0x391, 0x3A3] = [0x3B1, 0x3C2]
   \<and> toLowerCase ucd_fragment [0x3A3] = [0x3C3]
   \<and> filterTasks ucd_fragment [task_of (units ''1'') [0x391, 0x3A3] False Medium 10]
        All [0x3A3] AllPriorities = []"
proof -
  have "[0x391, 0x3A3] = [0x391] @ [0x3A3] @ ([] :: nat list) \<and> list_all2 same_letter [0x3A3] [0x3A3]"
    by (simp add: same_letter_def)
  then have spec: "contains_ignoring_case [0x391, 0x3A3] [0x3A3]"
    unfolding contains_ignoring_case_def by blast
  have code: "toLowerCase ucd_fragment [0x391, 0x3A3] = [0x3B1, 0x3C2]
      \<and> toLowerCase ucd_fragment [0x3A3] = [0x3C3]"
    by (simp add: toLowerCase_def codePointsToString_def utf16EncodeCodePoint_def ucd_fragment_def)
  have empty: "toLowerCase ucd_fragment [] = []"
    by (simp add: toLowerCase_def codePointsToString_def)
  from code empty
  have "filterTasks ucd_fragment [task_of (units ''1'') [0x391, 0x3A3] False Medium 10]
        All [0x3A3] AllPriorities = []"
    by (simp add: filterTasks_def keepTask_def)
  with spec code show ?thesis
    by (simp add: excluded_by_search_def)
qed

text \<open>
  On strings of code units below 256 lower-casing works unit by unit, and there the
  filter is the conjunction of the three criteria as the specification words them.
\<close>

lemma same_letter_lower:
  "same_letter a b \<longleftrightarrow>
     (if isCapital a then a + 32 else a) = (if isCapital b then b + 32 else b)"
  by (auto simp: same_letter_def isCapital_def)

lemma map_eq_list_all2: "map f xs = map f ys \<longleftrightarrow> list_all2 (\<lambda>x y. f x = f y) xs ys"
proof (induction xs arbitrary: ys)
  case Nil
  then show ?case by auto
next
  case (Cons x xs)
  then show ?case by (cases ys) auto
qed

lemma sublist_map_conv:
  "sublist (map f q) (map f s) \<longleftrightarrow> (\<exists>before mid after. s = before @ mid @ after \<and> map f mid = map f q)"
proof
  assume "sublist (map f q) (map f s)"
  then obtain ps ss where "map f s = ps @ map f q @ ss"
    by (auto simp: sublist_def)
  then have "\<exists>us vs. s = us @ vs \<and> ps = map f us \<and> map f q @ ss = map f vs"
    by (simp add: map_eq_append_conv)
  then obtain b r where s: "s = b @ r" and r: "map f q @ ss = map f r"
    by blast
  from r have "\<exists>us vs. r = us @ vs \<and> map f q = map f us \<and> ss = map f vs"
    by (simp add: append_eq_map_conv)
  then obtain mid a where "r = mid @ a" and "map f mid = map f q"
    by auto
  with s show "\<exists>before mid after. s = before @ mid @ after \<and> map f mid = map f q"
    by blast
next
  assume "\<exists>before mid after. s = before @ mid @ after \<and> map f mid = map f q"
  then obtain b mid a where "s = b @ mid @ a" and "map f mid = map f q"
    by blast
  then have "map f s = map f b @ map f q @ map f a"
    by simp
  then show "sublist (map f q) (map f s)"
    unfolding sublist_def by blast
qed

lemma stringToCodePoints_latin1: "\<forall>c\<in>set s. c < 256 \<Longrightarrow> stringToCodePoints s = s"
  by (induction s rule: stringToCodePoints.induct) auto

lemma lowercaseCodePoints_latin1:
  "latin1_tables U \<Longrightarrow> \<forall>c\<in>set s. c < 256 \<Longrightarrow>
     lowercaseCodePoints U before s = map (\<lambda>c. if isCapital c then c + 32 else c) s"
  by (induction s arbitrary: before) (auto simp: latin1_tables_def)

lemma codePointsToString_small: "\<forall>c\<in>set s. c \<le> 0xFFFF \<Longrightarrow> codePointsToString s = s"
  by (induction s) (auto simp: codePointsToString_def utf16EncodeCodePoint_def)

lemma toLowerCase_latin1:
  assumes "latin1_tables U" and "\<forall>c\<in>set s. c < 256"
  shows "toLowerCase U s = map (\<lambda>c. if isCapital c then c + 32 else c) s"
proof -
  have "\<forall>c\<in>set (map (\<lambda>c. if isCapital c then c + 32 else c) s). c \<le> 0xFFFF"
    using assms(2) by auto
  then show ?thesis
    using assms
    by (simp add: toLowerCase_def stringToCodePoints_latin1 lowercaseCodePoints_latin1
          codePointsToString_small del: set_map)
qed

lemma same_letter_map:
  "list_all2 same_letter mid q \<longleftrightarrow>
     map (\<lambda>c. if isCapital c then c + 32 else c) mid = map (\<lambda>c. if isCapital c then c + 32 else c) q"
proof -
  have "same_letter = (\<lambda>x y. (if isCapital x then x + 32 else x) = (if isCapital y then y + 32 else y))"
    by (intro ext) (rule same_letter_lower)
  then show ?thesis
    by (simp only: map_eq_list_all2)
qed

lemma includes_lower_latin1:
  assumes "latin1_tables U" and "\<forall>c\<in>set txt. c < 256" and "\<forall>c\<in>set q. c < 256"
  shows "includes_str (toLowerCase U txt) (toLowerCase U q) \<longleftrightarrow> contains_ignoring_case txt q"
  using assms
  by (simp only: includes_str_sublist toLowerCase_latin1 sublist_map_conv
        contains_ignoring_case_def same_letter_map)

lemma keepTask_latin1:
  assumes "latin1_tables U" and "\<forall>c\<in>set (title t). c < 256" and "\<forall>c\<in>set (description t). c < 256"
    and "\<forall>c\<in>set q. c < 256"
  shows "keepTask U f q pf t \<longleftrightarrow>
     \<not> excluded_by_status f t \<and> \<not> excluded_by_search q t \<and> \<not> excluded_by_priority pf t"
  unfolding keepTask_def excluded_by_status_def excluded_by_search_def excluded_by_priority_def
    includes_lower_latin1[OF assms(1,2,4)] includes_lower_latin1[OF assms(1,3,4)]
  by (cases f; cases pf; cases "priority t") auto

lemma filterTasks_conjunctive_latin1:
  assumes "latin1_tables U"
    and "\<forall>t\<in>set ts. (\<forall>c\<in>set (title t). c < 256) \<and> (\<forall>c\<in>set (description t). c < 256)"
    and "\<forall>c\<in>set q. c < 256"
  shows "mset (filterTasks U ts f q pf) =
     filter_mset (\<lambda>t. \<not> excluded_by_status f t \<and> \<not> excluded_by_search q t
                        \<and> \<not> excluded_by_priority pf t) (mset ts)"
proof -
  have "filter (keepTask U f q pf) ts =
        filter (\<lambda>t. \<not> excluded_by_status f t \<and> \<not> excluded_by_search q t
                        \<and> \<not> excluded_by_priority pf t) ts"
    using assms by (intro filter_cong refl keepTask_latin1) auto
  then show ?thesis
    by (simp add: filterTasks_def mset_array_sort)
qed

lemma ucd_fragment_latin1: "latin1_tables ucd_fragment"
  by (auto simp: latin1_tables_def ucd_fragment_def isCapital_def)


text \<open>The search scenario of the specification, and the status scenario.\<close>

lemma search_scenario:
  "filterTasks ucd_fragment
     [task_of (units ''1'') (units ''Write Report'') False Low 10,
      (task_of (units ''2'') (units ''Meeting'') False Low 20)\<lparr>description := units ''discuss budget''\<rparr>]
     All (units ''report'') AllPriorities
   = [task_of (units ''1'') (units ''Write Report'') False Low 10]"
  by (simp add: filterTasks_def keepTask_def toLowerCase_def codePointsToString_def
        utf16EncodeCodePoint_def ucd_fragment_def)

lemma status_scenario:
  "filterTasks U [task_of (units ''1'') (units ''A'') False High 10,
                  task_of (units ''2'') (units ''B'') True Low 20]
     Active [] AllPriorities = [task_of (units ''1'') (units ''A'') False High 10]"
  by (simp add: filterTasks_def keepTask_def)














text \<open>The ordering scenario of the specification.\<close>

lemma ordering_scenario:
  "map priority
     (filterTasks U [task_of (units ''1'') (units ''x'') False Low 10,
                     task_of (units ''2'') (units ''y'') False High 10,
                     task_of (units ''3'') (units ''z'') False Medium 10] All [] AllPriorities)
   = [High, Medium, Low]"
  by (simp add: filterTasks_def keepTask_def sortCompare_def compareTasks_def)


subsection \<open>The lookup map and the task list\<close>

lemma spread_keeps:
  "upd_id u = None \<Longrightarrow> id_task (spread_updates t u) = id_task t"
  "upd_createdAt u = None \<Longrightarrow> createdAt (spread_updates t u) = createdAt t"
  "upd_title u = None \<Longrightarrow> title (spread_updates t u) = title t"
  "upd_title u = Some v \<Longrightarrow> title (spread_updates t u) = v"
  by (simp_all add: spread_updates_def)

lemma spread_completed_only:
  "spread_updates t (no_updates\<lparr>upd_completed := Some b\<rparr>) = t\<lparr>completed := b\<rparr>"
  by (simp add: spread_updates_def no_updates_def)

lemma find_id_agrees:
  "\<forall>t\<in>set ts. id_task t = i \<longrightarrow> t = M \<Longrightarrow> i \<in> id_task ` set ts \<Longrightarrow>
     find (\<lambda>t. id_task t = i) ts = Some M"
  by (induction ts) auto

lemma update_state_agrees:
  assumes "agrees m s"
  shows "snd (taskReducer env m s (UPDATE_TASK i u)) =
           s\<lparr>tasks := map (\<lambda>t. if id_task t = i then spread_updates t u else t) (tasks s)\<rparr>"
proof (cases "i \<in> id_task ` set (tasks s)")
  case False
  then have "map (\<lambda>t. if id_task t = i then spread_updates t u else t) (tasks s) = tasks s"
    by (intro map_idI) auto
  with False show ?thesis
    by (simp add: updateTask_def Let_def map_id_absent split: option.splits)
next
  case True
  then obtain t where t: "t \<in> set (tasks s)" "id_task t = i" by auto
  with assms have M: "map_of m i = Some t" by (auto simp: agrees_def)
  have "\<forall>x\<in>set (tasks s). id_task x = i \<longrightarrow> x = t"
    using assms M by (auto simp: agrees_def)
  then have "map (\<lambda>x. if id_task x = i then spread_updates t u else x) (tasks s) =
             map (\<lambda>x. if id_task x = i then spread_updates x u else x) (tasks s)"
    by (intro map_cong) auto
  with M show ?thesis
    by (simp add: updateTask_def Let_def)
qed

lemma toggle_state_agrees:
  assumes "agrees m s"
  shows "snd (taskReducer env m s (TOGGLE_TASK i)) =
           s\<lparr>tasks := map (\<lambda>t. if id_task t = i then t\<lparr>completed := \<not> completed t\<rparr> else t) (tasks s)\<rparr>"
proof (cases "i \<in> id_task ` set (tasks s)")
  case False
  then have "map (\<lambda>t. if id_task t = i then t\<lparr>completed := \<not> completed t\<rparr> else t) (tasks s) = tasks s"
    by (intro map_idI) auto
  with False show ?thesis
    by (simp add: updateTask_def Let_def map_id_absent split: option.splits)
next
  case True
  then obtain t where t: "t \<in> set (tasks s)" "id_task t = i" by auto
  with assms have M: "map_of m i = Some t" by (auto simp: agrees_def)
  have all: "\<forall>x\<in>set (tasks s). id_task x = i \<longrightarrow> x = t"
    using assms M by (auto simp: agrees_def)
  then have f: "find (\<lambda>t. id_task t = i) (tasks s) = Some t"
    using True by (rule find_id_agrees)
  from all have "map (\<lambda>x. if id_task x = i then t\<lparr>completed := \<not> completed t\<rparr> else x) (tasks s) =
             map (\<lambda>x. if id_task x = i then x\<lparr>completed := \<not> completed x\<rparr> else x) (tasks s)"
    by (intro map_cong) auto
  with M f show ?thesis
    by (simp add: updateTask_def Let_def spread_completed_only)
qed

lemma agrees_step:
  assumes "agrees m s" and "admissible env s action"
  shows "agrees (fst (taskReducer env m s action)) (snd (taskReducer env m s action))"
proof (cases action)
  case (ADD_TASK payload)
  with assms show ?thesis
    by (auto simp: agrees_def addTask_def update_conv' Let_def image_iff)
next
  case (UPDATE_TASK i u)
  with assms show ?thesis
    by (auto simp: agrees_def updateTask_def update_conv' Let_def spread_keeps
             split: option.splits)
next
  case (DELETE_TASK i)
  with assms show ?thesis
    by (auto simp: agrees_def deleteTask_def delete_conv')
next
  case (TOGGLE_TASK i)
  with assms show ?thesis
    by (auto simp: agrees_def updateTask_def update_conv' Let_def spread_completed_only
             split: option.splits)
qed (use assms in \<open>auto simp: agrees_def Let_def\<close>)

lemma stamps_update:
  "agrees m s \<Longrightarrow> upd_id u = None \<Longrightarrow> upd_createdAt u = None \<Longrightarrow>
     map stamp (tasks (snd (taskReducer env m s (UPDATE_TASK i u)))) = map stamp (tasks s)"
  by (simp add: update_state_agrees stamp_def spread_keeps o_def del: taskReducer.simps cong: map_cong)

lemma stamps_toggle:
  "agrees m s \<Longrightarrow>
     map stamp (tasks (snd (taskReducer env m s (TOGGLE_TASK i)))) = map stamp (tasks s)"
  by (simp add: toggle_state_agrees stamp_def o_def del: taskReducer.simps cong: map_cong)

lemma subseq_append_right: "subseq xs ys \<Longrightarrow> subseq xs (ys @ zs)"
  using list_emb_append_mono[of "(=)" xs ys "[]" zs] by simp

lemma stamps_step:
  assumes "agrees m s" and "admissible env s action"
  shows "subseq (map stamp (tasks (snd (taskReducer env m s action))))
                (map stamp (tasks s) @ [(randomUUID env, TimeValue (now env))])"
proof (cases action)
  case (ADD_TASK payload)
  then show ?thesis by (simp add: Let_def stamp_def)
next
  case (UPDATE_TASK i u)
  with assms show ?thesis
    by (simp add: stamps_update subseq_append_right del: taskReducer.simps)
next
  case (DELETE_TASK i)
  then show ?thesis
    by (simp add: subseq_map subseq_append_right)
next
  case (TOGGLE_TASK i)
  with assms show ?thesis
    by (simp add: stamps_toggle subseq_append_right del: taskReducer.simps)
next
  case CLEAR_COMPLETED
  then show ?thesis
    by (simp add: subseq_map subseq_append_right Let_def)
qed (simp_all add: subseq_append_right)

lemma ids_of_stamps: "map id_task ts = map fst (map stamp ts)"
  by (simp add: stamp_def o_def)

lemma distinct_step:
  assumes "agrees m s" and "admissible env s action" and "distinct (map id_task (tasks s))"
  shows "distinct (map id_task (tasks (snd (taskReducer env m s action))))"
proof -
  from assms(2) have fresh: "distinct (map id_task (tasks s) @ (case action of ADD_TASK p \<Rightarrow> [randomUUID env] | _ \<Rightarrow> []))"
    using assms(3) by (cases action) auto
  show ?thesis
  proof (cases action)
    case (ADD_TASK payload)
    with fresh show ?thesis by (simp add: Let_def)
  next
    case (UPDATE_TASK i u)
    with assms have "map stamp (tasks (snd (taskReducer env m s action))) = map stamp (tasks s)"
      by (simp add: stamps_update del: taskReducer.simps)
    with assms(3) show ?thesis by (simp add: ids_of_stamps del: taskReducer.simps)
  next
    case (TOGGLE_TASK i)
    with assms have "map stamp (tasks (snd (taskReducer env m s action))) = map stamp (tasks s)"
      by (simp add: stamps_toggle del: taskReducer.simps)
    with assms(3) show ?thesis by (simp add: ids_of_stamps del: taskReducer.simps)
  qed (use assms(3) in \<open>simp_all add: distinct_map_filter Let_def\<close>)
qed

lemma titles_step:
  assumes "agrees m s" and "admissible env s action"
    and "\<forall>t\<in>set (tasks s). trim (title t) \<noteq> []"
  shows "\<forall>t\<in>set (tasks (snd (taskReducer env m s action))). trim (title t) \<noteq> []"
proof (cases action)
  case (UPDATE_TASK i u)
  with assms show ?thesis
    by (cases "upd_title u")
       (auto simp: update_state_agrees spread_keeps simp del: taskReducer.simps)
next
  case (TOGGLE_TASK i)
  with assms show ?thesis
    by (auto simp: toggle_state_agrees simp del: taskReducer.simps)
qed (use assms in \<open>auto simp: Let_def\<close>)

lemma task_inv_step:
  "task_inv c \<Longrightarrow> admissible env (snd c) action \<Longrightarrow>
     task_inv (taskReducer env (fst c) (snd c) action)"
  unfolding task_inv_def
  using agrees_step distinct_step titles_step by blast

lemma task_inv_initial: "task_inv initialConfig"
  by (simp add: task_inv_def initialConfig_def initialState_def agrees_def)

lemma task_inv_run:
  "task_inv c \<Longrightarrow> admissible_run c steps \<Longrightarrow> task_inv (dispatchAll c steps)"
proof (induction steps arbitrary: c)
  case Nil
  then show ?case by simp
next
  case (Cons step steps)
  obtain env action where step: "step = (env, action)" by (cases step)
  obtain m s where c: "c = (m, s)" by (cases c)
  from Cons.prems step c have "task_inv (taskReducer env (fst c) (snd c) action)"
    by (intro task_inv_step) simp_all
  with Cons.IH Cons.prems step c show ?case by simp
qed

lemma agrees_reachable:
  "admissible_run initialConfig steps \<Longrightarrow>
     agrees (fst (dispatchAll initialConfig steps)) (snd (dispatchAll initialConfig steps))"
  using task_inv_run[OF task_inv_initial] by (simp add: task_inv_def)

text \<open>
  C2. The claim: after every sequence of reducer actions from the initial empty state,
  the identifiers stored in the lookup map are the identifiers of the listed tasks, also
  after clear-completed. The source does not do this: \<^verbatim>\<open>DELETE_TASK\<close> calls
  \<^verbatim>\<open>taskManager.deleteTask\<close>, \<^verbatim>\<open>CLEAR_COMPLETED\<close> filters the list and leaves the map
  alone. After a task is added, completed and cleared, the map still stores it.
\<close>

theorem clear_completed_leaves_map_entry:
  "fst ` set (fst (dispatchAll initialConfig
      [(env_at (units ''1'') 10, ADD_TASK (createTask (units ''a'') [] Medium None [])),
       (env_at [] 20, TOGGLE_TASK (units ''1'')),
       (env_at [] 30, CLEAR_COMPLETED)])) = {(units ''1'')}
   \<and> id_task ` set (tasks (snd (dispatchAll initialConfig
      [(env_at (units ''1'') 10, ADD_TASK (createTask (units ''a'') [] Medium None [])),
       (env_at [] 20, TOGGLE_TASK (units ''1'')),
       (env_at [] 30, CLEAR_COMPLETED)]))) = {}
   \<and> fst ` set (fst (dispatchAll initialConfig
      [(env_at (units ''1'') 10, ADD_TASK (createTask (units ''a'') [] Medium None [])),
       (env_at [] 20, TOGGLE_TASK (units ''1'')),
       (env_at [] 30, DELETE_TASK (units ''1''))])) = {}"
  by (simp add: initialConfig_def initialState_def createTask_def trim_def isWhiteSpace_def
        addTask_def updateTask_def deleteTask_def spread_updates_def no_updates_def Let_def)

subsection \<open>The reducer as a function of state and action\<close>

text \<open>
  C1, as the source has it. With the generated identifier and the clock reading given,
  and a lookup map that agrees with the task list (as it does in every configuration
  reached by admissible actions, \<open>agrees_reachable\<close>), the state the reducer returns is
  determined by identifier, timestamp, state and action: two maps that both agree with
  the state give the same new state. The previous state is a value and is not modified.
  The reducer is not free of effects, though: it writes the lookup map.
\<close>

theorem reducer_state_determined:
  "agrees m1 s \<Longrightarrow> agrees m2 s \<Longrightarrow>
     snd (taskReducer env m1 s action) = snd (taskReducer env m2 s action)"
  by (cases action)
    (simp_all add: update_state_agrees toggle_state_agrees Let_def
       del: taskReducer.simps(2) taskReducer.simps(4))

theorem reducer_state_determined_witness:
  "agrees [((units ''1''), task_of (units ''1'') (units ''a'') False Low 10)] (state_of [task_of (units ''1'') (units ''a'') False Low 10])
   \<and> agrees [((units ''9''), task_of (units ''9'') (units ''old'') True Low 5), ((units ''1''), task_of (units ''1'') (units ''a'') False Low 10)]
        (state_of [task_of (units ''1'') (units ''a'') False Low 10])
   \<and> snd (taskReducer (env_at [] 20) [((units ''1''), task_of (units ''1'') (units ''a'') False Low 10)]
            (state_of [task_of (units ''1'') (units ''a'') False Low 10]) (TOGGLE_TASK (units ''1'')))
     = snd (taskReducer (env_at [] 20)
            [((units ''9''), task_of (units ''9'') (units ''old'') True Low 5), ((units ''1''), task_of (units ''1'') (units ''a'') False Low 10)]
            (state_of [task_of (units ''1'') (units ''a'') False Low 10]) (TOGGLE_TASK (units ''1'')))
   \<and> snd (taskReducer (env_at [] 20) [((units ''1''), task_of (units ''1'') (units ''a'') False Low 10)]
            (state_of [task_of (units ''1'') (units ''a'') False Low 10]) (TOGGLE_TASK (units ''1'')))
     = state_of [task_of (units ''1'') (units ''a'') True Low 10]"
proof -
  have a1: "agrees [((units ''1''), task_of (units ''1'') (units ''a'') False Low 10)]
              (state_of [task_of (units ''1'') (units ''a'') False Low 10])"
    by (simp add: agrees_def)
  have a2: "agrees [((units ''9''), task_of (units ''9'') (units ''old'') True Low 5), ((units ''1''), task_of (units ''1'') (units ''a'') False Low 10)]
              (state_of [task_of (units ''1'') (units ''a'') False Low 10])"
    by (simp add: agrees_def)
  have result: "snd (taskReducer (env_at [] 20) [((units ''1''), task_of (units ''1'') (units ''a'') False Low 10)]
            (state_of [task_of (units ''1'') (units ''a'') False Low 10]) (TOGGLE_TASK (units ''1'')))
     = state_of [task_of (units ''1'') (units ''a'') True Low 10]"
    by (simp add: updateTask_def spread_updates_def no_updates_def Let_def)
  show ?thesis
    using a1 a2 result reducer_state_determined [OF a1 a2, of "env_at [] 20" "TOGGLE_TASK (units ''1'')"]
    by (simp only: simp_thms)
qed

text \<open>
  C1 as stated fails on the source. Two applications to the same state and action give
  different states when \<^verbatim>\<open>crypto.randomUUID()\<close> returns different identifiers (the source
  calls it in the reducer; nothing is injected). With the same identifier and clock
  reading, the same state and the same action, the result still depends on the lookup
  map: the two runs below end in the same state with different maps, and toggling
  \<open>''2''\<close> completes the task after one and does nothing after the other. And the add
  action changes the map, an effect beyond the returned state.
\<close>

theorem reducer_depends_on_environment_and_map:
  "snd (taskReducer (env_at (units ''1'') 10) [] initialState (ADD_TASK (createTask (units ''a'') [] Medium None [])))
     \<noteq> snd (taskReducer (env_at (units ''2'') 10) [] initialState (ADD_TASK (createTask (units ''a'') [] Medium None [])))
   \<and> snd (dispatchAll initialConfig
            [(env_at (units ''2'') 10, ADD_TASK (createTask (units ''a'') [] Medium None []))])
     = snd (dispatchAll initialConfig
            [(env_at (units ''1'') 10, ADD_TASK (createTask (units ''a'') [] Medium None [])),
             (env_at [] 20, UPDATE_TASK (units ''1'') (no_updates\<lparr>upd_id := Some (units ''2'')\<rparr>))])
   \<and> snd (dispatchAll initialConfig
            [(env_at (units ''2'') 10, ADD_TASK (createTask (units ''a'') [] Medium None [])),
             (env_at [] 30, TOGGLE_TASK (units ''2''))])
     \<noteq> snd (dispatchAll initialConfig
            [(env_at (units ''1'') 10, ADD_TASK (createTask (units ''a'') [] Medium None [])),
             (env_at [] 20, UPDATE_TASK (units ''1'') (no_updates\<lparr>upd_id := Some (units ''2'')\<rparr>)),
             (env_at [] 30, TOGGLE_TASK (units ''2''))])
   \<and> fst (taskReducer (env_at (units ''1'') 10) [] initialState (ADD_TASK (createTask (units ''a'') [] Medium None [])))
     \<noteq> []"
  by (simp add: initialConfig_def initialState_def createTask_def trim_def isWhiteSpace_def
        addTask_def updateTask_def spread_updates_def no_updates_def Let_def)

subsection \<open>Identifier, title and creation timestamp of a task\<close>

text \<open>
  The actions of the two form handlers are admissible: \<^verbatim>\<open>handleSubmit\<close> dispatches an add
  action only for a title that trims to non-empty and sends the trimmed title, and
  \<^verbatim>\<open>handleSave\<close> sends a trimmed, non-empty title and a description, nothing else.
\<close>

lemma dropWhile_rev_split: "\<exists>zs. u = rev (dropWhile P (rev u)) @ zs"
proof -
  have "rev u = takeWhile P (rev u) @ dropWhile P (rev u)" by simp
  then have "u = rev (dropWhile P (rev u)) @ rev (takeWhile P (rev u))"
    by (metis rev_append rev_rev_ident)
  then show ?thesis ..
qed

lemma trim_idem: "trim (trim s) = trim s"
proof (cases "trim s = []")
  case True
  moreover have "trim [] = []" by (simp add: trim_def)
  ultimately show ?thesis by simp
next
  case False
  define u where "u = dropWhile isWhiteSpace s"
  define w where "w = trim s"
  have w: "w = rev (dropWhile isWhiteSpace (rev u))" by (simp add: w_def u_def trim_def)
  from False have wne: "w \<noteq> []" by (simp add: w_def)
  obtain zs where u: "u = w @ zs" using dropWhile_rev_split[of u isWhiteSpace] w by auto
  with wne have "u \<noteq> []" and hd: "hd u = hd w" by auto
  then have "\<not> isWhiteSpace (hd u)" unfolding u_def by (metis hd_dropWhile)
  with hd wne have front: "dropWhile isWhiteSpace w = w"
    by (cases w) auto
  from w wne have "dropWhile isWhiteSpace (rev u) \<noteq> []" and "rev w = dropWhile isWhiteSpace (rev u)"
    by auto
  then have "\<not> isWhiteSpace (hd (rev w))" by (metis hd_dropWhile)
  with wne have "dropWhile isWhiteSpace (rev w) = rev w"
    by (cases "rev w") auto
  with front have "trim w = w" by (simp add: trim_def)
  then show ?thesis by (simp add: w_def)
qed

lemma handleSubmit_admissible:
  "handleSubmit ttl descr prio = Some action \<Longrightarrow> randomUUID env \<notin> id_task ` set (tasks s) \<Longrightarrow>
     admissible env s action"
  by (auto simp: handleSubmit_def createTask_def trim_idem split: if_splits)

lemma handleSave_admissible:
  "handleSave task editTitle editDescription = Some action \<Longrightarrow> admissible env s action"
  by (auto simp: handleSave_def no_updates_def trim_idem split: if_splits)

text \<open>
  C3, as the source has it. In every state reached from the initial state by admissible
  actions (adds with a title that trims to non-empty and an identifier no listed task
  has; updates that name neither \<^verbatim>\<open>id\<close> nor \<^verbatim>\<open>createdAt\<close> and no title that trims to
  empty), the identifiers of the listed tasks are pairwise distinct and every title is
  non-empty after trimming; and a further admissible action changes no identifier and no
  creation timestamp: the list of (identifier, timestamp) pairs after it is a
  subsequence of the list before it followed by the pair of the added task, and after an
  update or toggle action it is the list before it.
\<close>

theorem reachable_task_invariants:
  assumes "admissible_run initialConfig steps"
    and "c = dispatchAll initialConfig steps"
    and "admissible env (snd c) action"
    and "c' = taskReducer env (fst c) (snd c) action"
  shows "distinct (map id_task (tasks (snd c)))
       \<and> (\<forall>t\<in>set (tasks (snd c)). trim (title t) \<noteq> [])
       \<and> subseq (map stamp (tasks (snd c'))) (map stamp (tasks (snd c)) @ [(randomUUID env, TimeValue (now env))])
       \<and> ((\<exists>i u. action = UPDATE_TASK i u) \<or> (\<exists>i. action = TOGGLE_TASK i)
            \<longrightarrow> map stamp (tasks (snd c')) = map stamp (tasks (snd c)))"
proof -
  have inv: "task_inv c"
    using assms(1,2) task_inv_run[OF task_inv_initial] by simp
  then have ag: "agrees (fst c) (snd c)" by (simp add: task_inv_def)
  have "(\<exists>i u. action = UPDATE_TASK i u) \<or> (\<exists>i. action = TOGGLE_TASK i)
            \<longrightarrow> map stamp (tasks (snd c')) = map stamp (tasks (snd c))"
    using ag assms(3,4) by (auto simp: stamps_update stamps_toggle simp del: taskReducer.simps)
  with inv ag assms(3,4) show ?thesis
    by (simp add: task_inv_def stamps_step del: taskReducer.simps)
qed

theorem reachable_task_invariants_witness:
  "admissible_run initialConfig session_run
   \<and> admissible (env_at [] 60) (snd (dispatchAll initialConfig session_run))
        (UPDATE_TASK (units ''2'') (no_updates\<lparr>upd_title := Some (units ''Budget meeting'')\<rparr>))
   \<and> distinct (map id_task (tasks (snd (dispatchAll initialConfig session_run))))
   \<and> list_all (\<lambda>t. trim (title t) \<noteq> []) (tasks (snd (dispatchAll initialConfig session_run)))
   \<and> map stamp (tasks (snd (taskReducer (env_at [] 60)
          (fst (dispatchAll initialConfig session_run))
          (snd (dispatchAll initialConfig session_run))
          (UPDATE_TASK (units ''2'') (no_updates\<lparr>upd_title := Some (units ''Budget meeting'')\<rparr>)))))
     = map stamp (tasks (snd (dispatchAll initialConfig session_run)))
   \<and> map stamp (tasks (snd (dispatchAll initialConfig session_run))) = [(units ''2'', TimeValue 40)]"
proof -
  have run: "admissible_run initialConfig session_run"
    by (simp add: initialConfig_def initialState_def createTask_def trim_def isWhiteSpace_def
          addTask_def updateTask_def spread_updates_def no_updates_def stamp_def agrees_def Let_def)
  have act: "admissible (env_at [] 60) (snd (dispatchAll initialConfig session_run))
        (UPDATE_TASK (units ''2'') (no_updates\<lparr>upd_title := Some (units ''Budget meeting'')\<rparr>))"
    by (simp add: initialConfig_def initialState_def createTask_def trim_def isWhiteSpace_def
          addTask_def updateTask_def spread_updates_def no_updates_def stamp_def agrees_def Let_def)
  have stamps: "map stamp (tasks (snd (dispatchAll initialConfig session_run))) = [(units ''2'', TimeValue 40)]"
    by (simp add: initialConfig_def initialState_def createTask_def trim_def isWhiteSpace_def
          addTask_def updateTask_def spread_updates_def no_updates_def stamp_def agrees_def Let_def)
  show ?thesis
    using run act stamps reachable_task_invariants [OF run refl act refl]
    by (simp add: list_all_iff)
qed

text \<open>
  C3 as stated fails on the source: \<^verbatim>\<open>updates: Partial<Task>\<close> may name any field, and
  \<^verbatim>\<open>updateTask\<close> spreads it over the task. After two adds, one update action gives the
  first task the identifier of the second, a title of one space and another creation
  timestamp.
\<close>

theorem update_rewrites_identity:
  "map stamp (tasks (snd (dispatchAll initialConfig two_adds))) = [(units ''1'', TimeValue 10), (units ''2'', TimeValue 20)]
   \<and> map stamp (tasks (snd (dispatchAll initialConfig
        (two_adds @ [(env_at [] 30, UPDATE_TASK (units ''1'')
           (no_updates\<lparr>upd_id := Some (units ''2''), upd_title := Some (units '' ''), upd_createdAt := Some (TimeValue 99)\<rparr>))]))))
       = [(units ''2'', TimeValue 99), (units ''2'', TimeValue 20)]
   \<and> \<not> distinct (map id_task (tasks (snd (dispatchAll initialConfig
        (two_adds @ [(env_at [] 30, UPDATE_TASK (units ''1'')
           (no_updates\<lparr>upd_id := Some (units ''2''), upd_title := Some (units '' ''), upd_createdAt := Some (TimeValue 99)\<rparr>))])))))
   \<and> map title (tasks (snd (dispatchAll initialConfig
        (two_adds @ [(env_at [] 30, UPDATE_TASK (units ''1'')
           (no_updates\<lparr>upd_id := Some (units ''2''), upd_title := Some (units '' ''), upd_createdAt := Some (TimeValue 99)\<rparr>))]))))
       = [(units '' ''), (units ''b'')]
   \<and> trim (units '' '') = []"
  by (simp add: initialConfig_def initialState_def createTask_def trim_def isWhiteSpace_def
        addTask_def updateTask_def spread_updates_def no_updates_def stamp_def Let_def)

subsection \<open>Toggling twice\<close>

text \<open>
  C9, as the source has it. Where the lookup map agrees with the task list, one toggle
  action flips the completion flag of the task with the given identifier and leaves its
  other fields and all other tasks as they are, and a second toggle action right after
  it returns the state to what it was.
\<close>

theorem toggle_twice_restores:
  assumes "agrees m s"
  shows "snd (taskReducer env2 (fst (taskReducer env1 m s (TOGGLE_TASK i)))
                (snd (taskReducer env1 m s (TOGGLE_TASK i))) (TOGGLE_TASK i)) = s
       \<and> tasks (snd (taskReducer env1 m s (TOGGLE_TASK i))) =
           map (\<lambda>t. if id_task t = i then t\<lparr>completed := \<not> completed t\<rparr> else t) (tasks s)"
proof -
  have "agrees (fst (taskReducer env1 m s (TOGGLE_TASK i))) (snd (taskReducer env1 m s (TOGGLE_TASK i)))"
    using assms by (intro agrees_step) simp_all
  moreover have "map ((\<lambda>t. if id_task t = i then t\<lparr>completed := \<not> completed t\<rparr> else t) \<circ>
             (\<lambda>t. if id_task t = i then t\<lparr>completed := \<not> completed t\<rparr> else t)) (tasks s) = tasks s"
    by (intro map_idI) auto
  ultimately show ?thesis
    using assms by (simp add: toggle_state_agrees del: taskReducer.simps)
qed

theorem toggle_twice_restores_witness:
  "agrees (fst (dispatchAll initialConfig two_adds)) (snd (dispatchAll initialConfig two_adds))
   \<and> map completed (tasks (snd (taskReducer (env_at [] 30)
        (fst (dispatchAll initialConfig two_adds)) (snd (dispatchAll initialConfig two_adds))
        (TOGGLE_TASK (units ''2''))))) = [False, True]
   \<and> snd (taskReducer (env_at [] 40)
        (fst (taskReducer (env_at [] 30) (fst (dispatchAll initialConfig two_adds))
               (snd (dispatchAll initialConfig two_adds)) (TOGGLE_TASK (units ''2''))))
        (snd (taskReducer (env_at [] 30) (fst (dispatchAll initialConfig two_adds))
               (snd (dispatchAll initialConfig two_adds)) (TOGGLE_TASK (units ''2''))))
        (TOGGLE_TASK (units ''2'')))
     = snd (dispatchAll initialConfig two_adds)"
proof -
  have ag: "agrees (fst (dispatchAll initialConfig two_adds)) (snd (dispatchAll initialConfig two_adds))"
    by (simp add: initialConfig_def initialState_def createTask_def trim_def isWhiteSpace_def
          addTask_def updateTask_def spread_updates_def no_updates_def stamp_def agrees_def Let_def)
  have flags: "map completed (tasks (snd (taskReducer (env_at [] 30)
        (fst (dispatchAll initialConfig two_adds)) (snd (dispatchAll initialConfig two_adds))
        (TOGGLE_TASK (units ''2''))))) = [False, True]"
    by (simp add: initialConfig_def initialState_def createTask_def trim_def isWhiteSpace_def
          addTask_def updateTask_def spread_updates_def no_updates_def stamp_def agrees_def Let_def)
  show ?thesis
    using ag flags toggle_twice_restores [OF ag, of "env_at [] 40" "env_at [] 30" "(units ''2'')"]
    by (simp only: simp_thms)
qed

text \<open>
  C9 as stated fails on the source: the toggle action takes the task from the lookup
  map and only the new flag from the list. After the update action of \<open>renaming_run\<close>
  the list has two tasks under \<open>''2''\<close>, titled \<open>a\<close> and \<open>b\<close>; toggling \<open>''2''\<close> twice
  leaves both titled \<open>b\<close>.
\<close>

theorem toggle_twice_changes_title:
  "map id_task (tasks (snd (dispatchAll initialConfig renaming_run))) = [(units ''2''), (units ''2'')]
   \<and> map title (tasks (snd (dispatchAll initialConfig renaming_run))) = [(units ''a''), (units ''b'')]
   \<and> map title (tasks (snd (dispatchAll initialConfig
        (renaming_run @ [(env_at [] 40, TOGGLE_TASK (units ''2'')), (env_at [] 50, TOGGLE_TASK (units ''2''))]))))
       = [(units ''b''), (units ''b'')]"
  by (simp add: initialConfig_def initialState_def createTask_def trim_def isWhiteSpace_def
        addTask_def updateTask_def spread_updates_def no_updates_def Let_def)

subsection \<open>Adding a task\<close>

lemma set_update_subset: "set (AList.update k v al) \<subseteq> insert (k, v) (set al)"
  by (induction al) auto

lemma set_delete_subset: "set (AList.delete k al) \<subseteq> set al"
  by (auto simp: AList.delete_eq)

lemma stamp_spread:
  "upd_id u = None \<Longrightarrow> upd_createdAt u = None \<Longrightarrow> stamp (spread_updates t u) = stamp t"
  by (simp add: stamp_def spread_updates_def)

lemma stamped_from_updateTask:
  assumes "stamped_from G (m, s)" and "upd_id u = None" and "upd_createdAt u = None"
    and "updateTask m i u = (m', r)"
  shows "(\<forall>t\<in>snd ` set m'. stamp t \<in> G) \<and> (\<forall>t. r = Some t \<longrightarrow> stamp t \<in> G)"
proof (cases "map_of m i")
  case None
  with assms show ?thesis by (auto simp: updateTask_def stamped_from_def)
next
  case (Some M)
  then have "(i, M) \<in> set m" by (rule map_of_SomeD)
  with assms(1) have M: "stamp M \<in> G" by (force simp: stamped_from_def)
  from Some assms(4) have m': "m' = AList.update i (spread_updates M u) m"
    and r: "r = Some (spread_updates M u)"
    by (auto simp: updateTask_def Let_def)
  have "stamp (spread_updates M u) \<in> G"
    using M assms(2,3) by (simp add: stamp_spread)
  moreover have "set m' \<subseteq> insert (i, spread_updates M u) (set m)"
    unfolding m' by (rule set_update_subset)
  ultimately show ?thesis
    using assms(1) r by (auto simp: stamped_from_def)
qed

lemma stamped_from_step:
  assumes "stamped_from G (m, s)" and "keeps_identity action"
  shows "stamped_from (G \<union> stamps_read [(env, action)]) (taskReducer env m s action)"
proof (cases action)
  case (ADD_TASK payload)
  have "set (AList.update (randomUUID env) v m) \<subseteq> insert (randomUUID env, v) (set m)" for v
    by (rule set_update_subset)
  with assms(1) ADD_TASK show ?thesis
    by (fastforce simp: stamped_from_def stamps_read_def addTask_def stamp_def Let_def)
next
  case (UPDATE_TASK i u)
  obtain m' r where up: "updateTask m i u = (m', r)" by (cases "updateTask m i u")
  from assms UPDATE_TASK have "(\<forall>t\<in>snd ` set m'. stamp t \<in> G) \<and> (\<forall>t. r = Some t \<longrightarrow> stamp t \<in> G)"
    by (intro stamped_from_updateTask[OF _ _ _ up]) simp_all
  with assms(1) UPDATE_TASK up show ?thesis
    by (cases r) (auto simp: stamped_from_def stamps_read_def)
next
  case (DELETE_TASK i)
  with assms(1) set_delete_subset[of i m] show ?thesis
    by (auto simp: stamped_from_def stamps_read_def deleteTask_def)
next
  case (TOGGLE_TASK i)
  obtain m' r where up: "updateTask m i
             (no_updates\<lparr>upd_completed :=
                Some (case find (\<lambda>t. id_task t = i) (tasks s) of
                        None \<Rightarrow> True
                      | Some t \<Rightarrow> \<not> completed t)\<rparr>) = (m', r)"
    by (cases "updateTask m i
             (no_updates\<lparr>upd_completed :=
                Some (case find (\<lambda>t. id_task t = i) (tasks s) of
                        None \<Rightarrow> True
                      | Some t \<Rightarrow> \<not> completed t)\<rparr>)")
  from assms(1) have "(\<forall>t\<in>snd ` set m'. stamp t \<in> G) \<and> (\<forall>t. r = Some t \<longrightarrow> stamp t \<in> G)"
    by (intro stamped_from_updateTask[OF _ _ _ up]) (simp_all add: no_updates_def)
  with assms(1) TOGGLE_TASK up show ?thesis
    by (cases r) (auto simp: stamped_from_def stamps_read_def)
qed (use assms(1) in \<open>auto simp: stamped_from_def stamps_read_def Let_def\<close>)

lemma stamps_read_Cons:
  "stamps_read ((env, action) # rest) = stamps_read [(env, action)] \<union> stamps_read rest"
  by (cases action) (auto simp: stamps_read_def)

lemma stamped_from_run:
  "stamped_from G c \<Longrightarrow> list_all (\<lambda>step. keeps_identity (snd step)) steps \<Longrightarrow>
     stamped_from (G \<union> stamps_read steps) (dispatchAll c steps)"
proof (induction steps arbitrary: G c)
  case Nil
  then show ?case by (simp add: stamps_read_def)
next
  case (Cons step steps)
  obtain env action where step: "step = (env, action)" by (cases step)
  obtain m s where c: "c = (m, s)" by (cases c)
  from Cons.prems step c
  have "stamped_from (G \<union> stamps_read [(env, action)]) (taskReducer env m s action)"
    by (intro stamped_from_step) simp_all
  with Cons.prems step
  have "stamped_from (G \<union> stamps_read [(env, action)] \<union> stamps_read steps)
          (dispatchAll (taskReducer env m s action) steps)"
    by (intro Cons.IH) simp_all
  then show ?case
    using step c by (simp add: stamps_read_Cons[of env action steps] Un_assoc)
qed

lemma stamped_from_reachable:
  "list_all (\<lambda>step. keeps_identity (snd step)) steps \<Longrightarrow>
     stamped_from (stamps_read steps) (dispatchAll initialConfig steps)"
  using stamped_from_run[of "{}" initialConfig steps]
  by (simp add: stamped_from_def initialConfig_def initialState_def)


text \<open>
  C6, as the source has it. Take a state reached from the initial state by actions of
  which no update names \<^verbatim>\<open>id\<close> or \<^verbatim>\<open>createdAt\<close>, and an add action that
  \<^verbatim>\<open>TaskFactory.createTask\<close> builds (the form sends one only for a title that trims to
  non-empty), where \<^verbatim>\<open>crypto.randomUUID()\<close> returns an identifier it has not returned at
  an earlier add and the clock does not read earlier than at an earlier add. Then the
  resulting state is the input state with exactly one task appended at the end of the
  list, carrying the trimmed title and \<open>completed = False\<close>; its identifier is that of no
  task of the input state, and its creation timestamp is not earlier than that of any
  task of the input state. The tasks already present and the three filter fields are
  unchanged.
\<close>

theorem add_task_appends:
  assumes "list_all (\<lambda>step. keeps_identity (snd step)) steps"
    and "c = dispatchAll initialConfig steps"
    and "randomUUID env \<notin> randomUUID ` set (added steps)"
    and "list_all (\<lambda>e. now e \<le> now env) (added steps)"
  shows "snd (taskReducer env (fst c) (snd c) (ADD_TASK (createTask ttl descr prio due tgs))) =
           (snd c)\<lparr>tasks := tasks (snd c) @
               [\<lparr>id_task = randomUUID env, title = trim ttl, description = trim descr,
                 completed = False, priority = prio, createdAt = TimeValue (now env),
                 dueDate = due, tags = tgs\<rparr>]\<rparr>
       \<and> randomUUID env \<notin> id_task ` set (tasks (snd c))
       \<and> list_all (\<lambda>t. case createdAt t of TimeValue \<tau> \<Rightarrow> \<tau> \<le> now env | InvalidDate \<Rightarrow> False)
           (tasks (snd c))"
proof -
  have st: "\<forall>t\<in>set (tasks (snd c)). stamp t \<in> stamps_read steps"
    using stamped_from_reachable[OF assms(1)] assms(2) by (simp add: stamped_from_def)
  have fresh: "randomUUID env \<notin> id_task ` set (tasks (snd c))"
  proof
    assume "randomUUID env \<in> id_task ` set (tasks (snd c))"
    then obtain t where "t \<in> set (tasks (snd c))" and "id_task t = randomUUID env" by auto
    with st have "(randomUUID env, createdAt t) \<in> stamps_read steps"
      by (auto simp: stamp_def)
    then have "randomUUID env \<in> randomUUID ` set (added steps)"
      by (auto simp: stamps_read_def)
    with assms(3) show False by simp
  qed
  have clock: "list_all (\<lambda>t. case createdAt t of TimeValue \<tau> \<Rightarrow> \<tau> \<le> now env | InvalidDate \<Rightarrow> False)
           (tasks (snd c))"
    unfolding list_all_iff
  proof
    fix t assume "t \<in> set (tasks (snd c))"
    with st have "stamp t \<in> stamps_read steps" by simp
    then obtain e where "e \<in> set (added steps)" and "createdAt t = TimeValue (now e)"
      by (auto simp: stamps_read_def stamp_def)
    with assms(4) show "case createdAt t of TimeValue \<tau> \<Rightarrow> \<tau> \<le> now env | InvalidDate \<Rightarrow> False"
      by (simp add: list_all_iff)
  qed
  show ?thesis
    using fresh clock by (simp add: createTask_def Let_def)
qed

theorem add_task_appends_witness:
  "list_all (\<lambda>step. keeps_identity (snd step)) session_run
   \<and> units ''3'' \<notin> randomUUID ` set (added session_run)
   \<and> list_all (\<lambda>e. now e \<le> 60) (added session_run)
   \<and> snd (taskReducer (env_at (units ''3'') 60) (fst (dispatchAll initialConfig session_run))
        (snd (dispatchAll initialConfig session_run))
        (ADD_TASK (createTask (units '' Buy milk '') [] High None [])))
     = state_of [(task_of (units ''2'') (units ''Meeting'') False Low 40)\<lparr>description := units ''discuss budget''\<rparr>,
                 task_of (units ''3'') (units ''Buy milk'') False High 60]
   \<and> units ''3'' \<notin> id_task ` set (tasks (snd (dispatchAll initialConfig session_run)))
   \<and> map createdAt (tasks (snd (dispatchAll initialConfig session_run))) = [TimeValue 40]"
proof -
  have keeps: "list_all (\<lambda>step. keeps_identity (snd step)) session_run"
    by (simp add: no_updates_def)
  have fresh: "randomUUID (env_at (units ''3'') 60) \<notin> randomUUID ` set (added session_run)"
    by simp
  have clock: "list_all (\<lambda>e. now e \<le> now (env_at (units ''3'') 60)) (added session_run)"
    by simp
  have before: "dispatchAll initialConfig session_run =
      ([(units ''1'', (task_of (units ''1'') (units ''Write the report'') True High 10)\<lparr>description := units ''today''\<rparr>),
        (units ''2'', (task_of (units ''2'') (units ''Meeting'') False Low 40)\<lparr>description := units ''discuss budget''\<rparr>)],
       state_of [(task_of (units ''2'') (units ''Meeting'') False Low 40)\<lparr>description := units ''discuss budget''\<rparr>])"
    by (simp add: initialConfig_def initialState_def createTask_def trim_def isWhiteSpace_def
          addTask_def updateTask_def spread_updates_def no_updates_def Let_def)
  show ?thesis
    using keeps fresh clock
      add_task_appends [OF keeps refl fresh clock, of "units '' Buy milk ''" "[]" High None "[]"]
    unfolding before
    by (simp add: createTask_def trim_def isWhiteSpace_def addTask_def Let_def)
qed

text \<open>
  C6 as stated fails on the source. The reducer copies the payload: an add action whose
  title has white space around it and whose payload says \<open>completed\<close> gives a task with
  that title, untrimmed, and completed. The timestamp is the clock reading, compared
  with nothing: after an update action has set a task's \<^verbatim>\<open>createdAt\<close> to 5000, a task
  added at clock reading 2000 is stamped earlier than the newest task of the state. And
  the identifier is compared with nothing: after an update action has renamed a task to
  \<open>''2''\<close>, the task added under the newly generated identifier \<open>''2''\<close> shares it.
\<close>

theorem add_copies_payload_and_clock:
  "trim (units '' a'') = units ''a''
   \<and> map title
       (tasks (snd (taskReducer (env_at (units ''1'') 10) [] initialState
          (ADD_TASK (payload_of (units '' a'') True)))))
     = [units '' a'']
   \<and> map completed
       (tasks (snd (taskReducer (env_at (units ''1'') 10) [] initialState
          (ADD_TASK (payload_of (units '' a'') True)))))
     = [True]
   \<and> map stamp (tasks (snd (dispatchAll initialConfig
        [(env_at (units ''1'') 1000, ADD_TASK (createTask (units ''a'') [] Medium None [])),
         (env_at [] 1500, UPDATE_TASK (units ''1'') (no_updates\<lparr>upd_createdAt := Some (TimeValue 5000)\<rparr>)),
         (env_at (units ''2'') 2000, ADD_TASK (createTask (units ''b'') [] Medium None []))])))
     = [(units ''1'', TimeValue 5000), (units ''2'', TimeValue 2000)]
   \<and> map stamp (tasks (snd (dispatchAll initialConfig
        [(env_at (units ''1'') 1000, ADD_TASK (createTask (units ''a'') [] Medium None [])),
         (env_at [] 1500, UPDATE_TASK (units ''1'') (no_updates\<lparr>upd_id := Some (units ''2'')\<rparr>)),
         (env_at (units ''2'') 2000, ADD_TASK (createTask (units ''b'') [] Medium None []))])))
     = [(units ''2'', TimeValue 1000), (units ''2'', TimeValue 2000)]"
  by (simp add: initialConfig_def initialState_def createTask_def trim_def isWhiteSpace_def
        addTask_def updateTask_def spread_updates_def no_updates_def stamp_def Let_def)

end
